theory Spec2Isabelle
  imports Main "HOL-Library.Word"
begin

section \<open>USB CDC-ACM to BLE UART bridge: a model of \<^verbatim>\<open>main/main.c\<close>\<close>

text \<open>
  The program relays bytes between a USB CDC-ACM serial device and a BLE UART service.
  Three pieces of \<^verbatim>\<open>main.c\<close> are modelled here:
  \<^item> \<^verbatim>\<open>handle_rx\<close>, the receive callback of the wired side (wired to wireless);
  \<^item> \<^verbatim>\<open>echoTask\<close>, the task that drains the BLE ring buffer (wireless to wired);
  \<^item> \<^verbatim>\<open>handle_event\<close> and the loop of \<^verbatim>\<open>app_main\<close>, which open, configure and
    close the wired device.
  Calls into the USB, BLE and FreeRTOS libraries are recorded as events, in program order;
  what such a call returns is an input of the model. An access outside the static line
  buffer is undefined behaviour in C: the model stops there with a \<open>fault\<close>.
\<close>

subsection \<open>Bytes, sizes, error codes\<close>

type_synonym byte = "8 word"

text \<open>\<^verbatim>\<open>size_t\<close> on the 32-bit targets of ESP-IDF: subtraction wraps around.\<close>

type_synonym size_t = "32 word"

type_synonym esp_err_t = int

definition ESP_OK :: esp_err_t where
  "ESP_OK = 0"

text \<open>A \<^verbatim>\<open>cdc_acm_dev_hdl_t\<close> is an opaque pointer; \<open>None\<close> is \<^verbatim>\<open>NULL\<close>.\<close>

type_synonym cdc_acm_dev_hdl_t = "nat option"

definition NUL :: byte where
  "NUL = 0"

definition CR :: byte where
  "CR = 13"

definition USB_TX_TIMEOUT_MS :: nat where
  "USB_TX_TIMEOUT_MS = 1000"

definition MD9600_USB_DEVICE_VID :: nat where
  "MD9600_USB_DEVICE_VID = 0x1FC9"

definition MD9600_USB_DEVICE_PID :: nat where
  "MD9600_USB_DEVICE_PID = 0x0094"

definition TAG :: string where
  "TAG = ''DMR-RADIO''"

subsection \<open>Memory accesses of the line buffer\<close>

text \<open>
  \<open>OOB_Write i\<close> and \<open>OOB_Read i\<close>: the code writes or reads index \<open>i\<close> of an array
  that has no such index.
\<close>

datatype fault = OOB_Write nat | OOB_Read nat

definition bind_res :: "fault + 'a \<Rightarrow> ('a \<Rightarrow> fault + 'b) \<Rightarrow> fault + 'b" where
  "bind_res r f = (case r of Inl e \<Rightarrow> Inl e | Inr x \<Rightarrow> f x)"

text \<open>\<^verbatim>\<open>buf[i] = v\<close> and \<^verbatim>\<open>buf[i]\<close> on an array of \<open>length buf\<close> bytes.\<close>

definition store :: "byte list \<Rightarrow> nat \<Rightarrow> byte \<Rightarrow> fault + byte list" where
  "store buf i v = (if i < length buf then Inr (buf[i := v]) else Inl (OOB_Write i))"

definition load :: "byte list \<Rightarrow> nat \<Rightarrow> fault + byte" where
  "load buf i = (if i < length buf then Inr (buf ! i) else Inl (OOB_Read i))"

text \<open>The bytes before the first NUL: all of them when there is none.\<close>

definition until_NUL :: "byte list \<Rightarrow> byte list" where
  "until_NUL bs = takeWhile (\<lambda>b. b \<noteq> NUL) bs"

text \<open>
  \<^verbatim>\<open>strncpy(dest, src, n)\<close> of the C library: the bytes of \<open>src\<close> before its first NUL,
  at most \<open>n\<close> of them, then NUL bytes up to \<open>n\<close> bytes in all; the rest of \<open>dest\<close> is
  left as it was. It writes exactly \<open>n\<close> bytes and adds no terminator of its own.
  Reading \<open>src\<close> past its end (no NUL among its bytes and \<open>n\<close> larger than it) and
  writing \<open>dest\<close> past its end are faults; byte \<open>i\<close> is read before it is written, so
  the read fault comes first when \<open>src\<close> is not longer than \<open>dest\<close>.
\<close>

definition strncpy :: "byte list \<Rightarrow> byte list \<Rightarrow> nat \<Rightarrow> fault + byte list" where
  "strncpy dest src n =
     (if NUL \<notin> set src \<and> length src < n \<and> length src \<le> length dest
        then Inl (OOB_Read (length src))
      else if length dest < n then Inl (OOB_Write (length dest))
      else let s = until_NUL (take n src)
           in Inr (s @ replicate (n - length s) NUL @ drop n dest))"

text \<open>
  The C string that starts at \<open>buf\<close>: what \<^verbatim>\<open>strlen\<close>, \<^verbatim>\<open>"%s"\<close> and
  \<^verbatim>\<open>nordic_uart_send\<close> read. Without a NUL in the array the read runs off its end.
\<close>

definition c_str :: "byte list \<Rightarrow> fault + byte list" where
  "c_str buf =
     (if NUL \<in> set buf then Inr (until_NUL buf)
      else Inl (OOB_Read (length buf)))"

subsection \<open>Events: the calls the program makes, in order\<close>

datatype level = LOGE | LOGW | LOGI

record cdc_acm_line_coding_t =
  dwDTERate :: "32 word"
  bCharFormat :: byte
  bParityType :: byte
  bDataBits :: byte

datatype event =
    Log level string string "int list"
      \<comment> \<open>\<^verbatim>\<open>ESP_LOGx(tag, format, args)\<close> with numeric arguments\<close>
  | LogStr level string "byte list"
      \<comment> \<open>\<^verbatim>\<open>ESP_LOGx(tag, "%s", mbuf)\<close>: the C string printed\<close>
  | NordicSend "byte list"
      \<comment> \<open>\<^verbatim>\<open>nordic_uart_send(mbuf)\<close>: the C string handed over\<close>
  | UsbTx cdc_acm_dev_hdl_t "byte list" nat nat
      \<comment> \<open>\<^verbatim>\<open>cdc_acm_host_data_tx_blocking(dev, data, data_len, timeout_ms)\<close>\<close>
  | ReturnItem
      \<comment> \<open>\<^verbatim>\<open>vRingbufferReturnItem\<close>\<close>
  | TaskDelay nat
      \<comment> \<open>\<^verbatim>\<open>vTaskDelay\<close>, in milliseconds\<close>
  | UsbOpen nat nat nat
      \<comment> \<open>\<^verbatim>\<open>cdc_acm_host_open(vid, pid, interface, ...)\<close>\<close>
  | LineCodingGet cdc_acm_dev_hdl_t
  | LineCodingSet cdc_acm_dev_hdl_t cdc_acm_line_coding_t
  | SetControlLineState cdc_acm_dev_hdl_t bool bool
      \<comment> \<open>\<^verbatim>\<open>cdc_acm_host_set_control_line_state(dev, dtr, rts)\<close>\<close>
  | UsbClose cdc_acm_dev_hdl_t esp_err_t
      \<comment> \<open>\<^verbatim>\<open>cdc_acm_host_close(dev)\<close> and what it returned\<close>
  | SemGive
      \<comment> \<open>\<^verbatim>\<open>xSemaphoreGive(device_disconnected_sem)\<close>\<close>
  | SemTake
      \<comment> \<open>\<^verbatim>\<open>xSemaphoreTake(device_disconnected_sem, portMAX_DELAY)\<close>\<close>
  | ProcessAbort
      \<comment> \<open>\<^verbatim>\<open>ESP_ERROR_CHECK\<close> failed\<close>

subsection \<open>\<^verbatim>\<open>handle_rx\<close>: wired to wireless\<close>

text \<open>
  \<open>handle_rx err mbuf data data_len\<close>: \<open>mbuf\<close> is the static buffer of
  \<^verbatim>\<open>CONFIG_NORDIC_UART_MAX_LINE_LENGTH + 1\<close> bytes as the previous call left it, \<open>data\<close>
  the bytes the pointer \<^verbatim>\<open>data\<close> points to, \<open>err\<close> what \<^verbatim>\<open>nordic_uart_send\<close> returns.
  The result is the buffer afterwards, the events, and the value returned. The send event
  holds the C string in the buffer at the time of the call.
\<close>

definition handle_rx ::
  "esp_err_t \<Rightarrow> byte list \<Rightarrow> byte list \<Rightarrow> size_t \<Rightarrow> fault + (byte list \<times> event list \<times> bool)" where
  "handle_rx err mbuf data data_len =
     bind_res (strncpy mbuf data (unat data_len)) (\<lambda>m1.
     bind_res (store m1 (unat data_len) NUL) (\<lambda>m2.
     bind_res (c_str m2) (\<lambda>line.
     let evs = NordicSend line #
               (if ESP_OK \<noteq> err
                then [Log LOGW ''UART->BLE'' ''Failed to sent to BLE UART'' []] else [])
     in
     bind_res (load m2 (unat (data_len - 2))) (\<lambda>c.
     bind_res (if c = CR then store m2 (unat (data_len - 2)) NUL else Inr m2) (\<lambda>m3.
     bind_res (c_str m3) (\<lambda>shown.
     Inr (m3, evs @ [LogStr LOGI ''UART->BLE'' shown], True)))))))"

text \<open>The static buffer before the first call: zero-initialised.\<close>

definition mbuf_init :: "nat \<Rightarrow> byte list" where
  "mbuf_init max_line_length = replicate (max_line_length + 1) NUL"

subsection \<open>\<^verbatim>\<open>echoTask\<close>: wireless to wired\<close>

text \<open>
  One item received from the ring buffer: \<open>item\<close> are the bytes, \<open>item_size\<close> their
  number, \<open>cdc_dev\<close> the global device handle as the task reads it, \<open>err\<close> what
  \<^verbatim>\<open>cdc_acm_host_data_tx_blocking\<close> returns.
\<close>

definition echo_item ::
  "byte list \<Rightarrow> cdc_acm_dev_hdl_t \<Rightarrow> esp_err_t \<Rightarrow> byte list \<Rightarrow> size_t
     \<Rightarrow> fault + (byte list \<times> event list)" where
  "echo_item mbuf cdc_dev err item item_size =
     bind_res (strncpy mbuf item (unat item_size)) (\<lambda>m1.
     bind_res (store m1 (unat item_size) NUL) (\<lambda>m2.
     bind_res (c_str m2) (\<lambda>line.
     let n = length line in
     Inr (m2,
          [LogStr LOGI ''BLE->UART'' line, UsbTx cdc_dev (take n m2) n USB_TX_TIMEOUT_MS]
          @ (if ESP_OK \<noteq> err
             then [Log LOGW ''BLE->UART'' ''Failed send to USB UART'' []] else [])
          @ [ReturnItem]))))"

text \<open>
  What one turn of the \<^verbatim>\<open>for (;;)\<close> loop meets: no ring buffer yet
  (\<^verbatim>\<open>nordic_uart_rx_buf_handle\<close> is \<^verbatim>\<open>NULL\<close>), a receive that returned \<^verbatim>\<open>NULL\<close>, or an item.
\<close>

datatype echo_input =
    QueueAbsent
  | NoItem
  | Item "byte list" size_t cdc_acm_dev_hdl_t esp_err_t

text \<open>
  The loop never exits by itself; the model runs it over the turns given and returns the
  buffer and the events so far, or the fault that stopped it.
\<close>

fun echoTask :: "byte list \<Rightarrow> echo_input list \<Rightarrow> fault + (byte list \<times> event list)" where
  "echoTask mbuf [] = Inr (mbuf, [])"
| "echoTask mbuf (QueueAbsent # ins) =
     bind_res (echoTask mbuf ins) (\<lambda>(m, evs). Inr (m, TaskDelay 1000 # evs))"
| "echoTask mbuf (NoItem # ins) = echoTask mbuf ins"
| "echoTask mbuf (Item item item_size cdc_dev err # ins) =
     bind_res (echo_item mbuf cdc_dev err item item_size) (\<lambda>(m1, evs1).
     bind_res (echoTask m1 ins) (\<lambda>(m2, evs2). Inr (m2, evs1 @ evs2)))"

subsection \<open>\<^verbatim>\<open>handle_event\<close>: device events\<close>

datatype cdc_acm_host_dev_event_data_t =
    CDC_ACM_HOST_ERROR int
  | CDC_ACM_HOST_SERIAL_STATE "16 word"
  | CDC_ACM_HOST_DEVICE_DISCONNECTED cdc_acm_dev_hdl_t
  | CDC_ACM_HOST_UNSUPPORTED int
      \<comment> \<open>\<^verbatim>\<open>CDC_ACM_HOST_NETWORK_CONNECTION\<close> and any other type: the value of \<^verbatim>\<open>event->type\<close>\<close>

text \<open>
  Modelled from the spec: \<^verbatim>\<open>ESP_ERROR_CHECK\<close> is a macro of ESP-IDF, not of this
  repository; the spec says of it that the reference aborts the process on error.
  \<open>ESP_ERROR_CHECK err evs k\<close>: after the events \<open>evs\<close> the checked call returned
  \<open>err\<close>; the process aborts unless that is \<open>ESP_OK\<close>, and goes on with \<open>k\<close> otherwise.
  The flag of the result says whether the process is still running.
\<close>

definition ESP_ERROR_CHECK ::
  "esp_err_t \<Rightarrow> event list \<Rightarrow> (event list \<times> 'a option) \<Rightarrow> event list \<times> 'a option" where
  "ESP_ERROR_CHECK err evs k =
     (if err = ESP_OK then (evs @ fst k, snd k) else (evs @ [ProcessAbort], None))"

text \<open>
  \<open>handle_event close_res event\<close>: \<open>close_res\<close> is what \<^verbatim>\<open>cdc_acm_host_close\<close>
  returns. The result is the events and \<open>Some ()\<close> when the callback returns,
  \<open>None\<close> when the process aborted.
\<close>

fun handle_event :: "esp_err_t \<Rightarrow> cdc_acm_host_dev_event_data_t \<Rightarrow> event list \<times> unit option" where
  "handle_event close_res (CDC_ACM_HOST_ERROR e) =
     ([Log LOGE TAG ''CDC-ACM error has occurred, err_no = %i'' [e]], Some ())"
| "handle_event close_res (CDC_ACM_HOST_DEVICE_DISCONNECTED cdc_hdl) =
     ESP_ERROR_CHECK close_res
       [Log LOGI TAG ''Device suddenly disconnected'' [], UsbClose cdc_hdl close_res]
       ([SemGive], Some ())"
| "handle_event close_res (CDC_ACM_HOST_SERIAL_STATE val) =
     ([Log LOGI TAG ''Serial state notif 0x%04X'' [uint val]], Some ())"
| "handle_event close_res (CDC_ACM_HOST_UNSUPPORTED t) =
     ([Log LOGW TAG ''Unsupported CDC event: %i'' [t]], Some ())"

text \<open>
  The device session and the disconnect signal as the events change them: which handles
  are open, and whether the binary semaphore \<^verbatim>\<open>device_disconnected_sem\<close> is set.
\<close>

record world =
  open_hdls :: "cdc_acm_dev_hdl_t list"
  sem :: bool

fun apply_event :: "world \<Rightarrow> event \<Rightarrow> world" where
  "apply_event w (UsbClose h r) =
     (if r = ESP_OK then w\<lparr>open_hdls := removeAll h (open_hdls w)\<rparr> else w)"
| "apply_event w SemGive = w\<lparr>sem := True\<rparr>"
| "apply_event w SemTake = w\<lparr>sem := False\<rparr>"
| "apply_event w _ = w"

text \<open>Every state the world goes through while the events happen, the first one included.\<close>

fun states_along :: "world \<Rightarrow> event list \<Rightarrow> world list" where
  "states_along w [] = [w]"
| "states_along w (e # es) = w # states_along (apply_event w e) es"

definition count_events :: "event \<Rightarrow> event list \<Rightarrow> nat" where
  "count_events e evs = length (filter (\<lambda>x. x = e) evs)"

text \<open>The events of a run of device events, until the process aborts.\<close>

fun handle_events ::
  "(esp_err_t \<times> cdc_acm_host_dev_event_data_t) list \<Rightarrow> event list \<times> unit option" where
  "handle_events [] = ([], Some ())"
| "handle_events ((r, e) # es) =
     (case handle_event r e of
        (evs, None) \<Rightarrow> (evs, None)
      | (evs, Some _) \<Rightarrow> (evs @ fst (handle_events es), snd (handle_events es)))"

subsection \<open>The loop of \<^verbatim>\<open>app_main\<close>: open, configure, wait for the disconnect\<close>

text \<open>What the USB library answers during one turn of the loop.\<close>

record session_env =
  open_res :: "esp_err_t \<times> cdc_acm_dev_hdl_t"
  get1_res :: "esp_err_t \<times> cdc_acm_line_coding_t"
  set_res :: esp_err_t
  get2_res :: "esp_err_t \<times> cdc_acm_line_coding_t"
  ctl_res :: esp_err_t

text \<open>
  How a turn ends: \<open>Retry\<close> is the \<^verbatim>\<open>continue\<close> after a failed open, \<open>Connected\<close> the
  task blocked in \<^verbatim>\<open>xSemaphoreTake\<close> with \<^verbatim>\<open>portMAX_DELAY\<close>.
\<close>

datatype turn_end = Retry | Connected

definition app_main_turn :: "session_env \<Rightarrow> event list \<times> turn_end option" where
  "app_main_turn env =
     (let (err, cdc_dev) = open_res env;
          ev_open = [Log LOGI TAG ''Opening CDC ACM device 0x%04X:0x%04X...''
                       [int MD9600_USB_DEVICE_VID, int MD9600_USB_DEVICE_PID],
                     UsbOpen MD9600_USB_DEVICE_VID MD9600_USB_DEVICE_PID 0]
      in
      if ESP_OK \<noteq> err
      then (ev_open @ [Log LOGI TAG ''Failed to open device'' []], Some Retry)
      else
        ESP_ERROR_CHECK (fst (get1_res env))
          (ev_open @ [TaskDelay 100, Log LOGI TAG ''Setting up line coding'' [],
                      LineCodingGet cdc_dev])
          (let line_coding = (snd (get1_res env))
                 \<lparr>dwDTERate := 115200, bDataBits := 8, bParityType := 0, bCharFormat := 1\<rparr>
           in
           ESP_ERROR_CHECK (set_res env) [LineCodingSet cdc_dev line_coding]
             (ESP_ERROR_CHECK (fst (get2_res env)) [LineCodingGet cdc_dev]
                (let line_coding = snd (get2_res env) in
                 ESP_ERROR_CHECK (ctl_res env)
                   [Log LOGI TAG
                      ''Line Get: Rate: %u, Stop bits: %u, Parity: %u, Databits: %u''
                      [uint (dwDTERate line_coding), uint (bCharFormat line_coding),
                       uint (bParityType line_coding), uint (bDataBits line_coding)],
                    SetControlLineState cdc_dev True False]
                   ([Log LOGI TAG ''Connected CDC ACM device 0x%04X:0x%04X...''
                       [int MD9600_USB_DEVICE_VID, int MD9600_USB_DEVICE_PID],
                     SemTake],
                    Some Connected)))))"

text \<open>
  The \<^verbatim>\<open>while (true)\<close> loop over the turns given. With each turn comes whether the
  disconnect signal arrives while the task waits for it: if it never does, the task stays
  blocked. \<open>Some Retry\<close> at the end: the loop is at its top, about to open again;
  \<open>None\<close>: the process aborted.
\<close>

fun app_main_loop :: "(session_env \<times> bool) list \<Rightarrow> event list \<times> turn_end option" where
  "app_main_loop [] = ([], Some Retry)"
| "app_main_loop ((env, signalled) # envs) =
     (case app_main_turn env of
        (evs, None) \<Rightarrow> (evs, None)
      | (evs, Some Retry) \<Rightarrow> (evs @ fst (app_main_loop envs), snd (app_main_loop envs))
      | (evs, Some Connected) \<Rightarrow>
          (if signalled
           then (evs @ fst (app_main_loop envs), snd (app_main_loop envs))
           else (evs, Some Connected)))"

subsection \<open>Closed forms used in the statements\<close>

text \<open>
  The buffer once \<open>src\<close> has been copied to its start and the terminator written at
  index \<open>length src\<close>.
\<close>

definition framed :: "byte list \<Rightarrow> byte list \<Rightarrow> byte list" where
  "framed dest src =
     until_NUL src @ replicate (Suc (length src) - length (until_NUL src)) NUL
       @ drop (Suc (length src)) dest"

text \<open>
  The test \<^verbatim>\<open>mbuf[data_len - 2] == '\r'\<close> on that buffer, in terms of the chunk: the
  byte at \<open>length data - 2\<close> is a CR and no NUL comes before it.
\<close>

definition cr_found :: "byte list \<Rightarrow> bool" where
  "cr_found data \<longleftrightarrow>
     length data - 2 < length (until_NUL data) \<and> data ! (length data - 2) = CR"

text \<open>The buffer \<^verbatim>\<open>handle_rx\<close> leaves, and the line it logs.\<close>

definition rx_buffer :: "byte list \<Rightarrow> byte list \<Rightarrow> byte list" where
  "rx_buffer mbuf data =
     (if cr_found data then (framed mbuf data)[length data - 2 := NUL] else framed mbuf data)"

definition rx_logged :: "byte list \<Rightarrow> byte list" where
  "rx_logged data = (if cr_found data then take (length data - 2) data else until_NUL data)"

text \<open>The warning after a send that did not return \<open>ESP_OK\<close>.\<close>

definition rx_warning :: "esp_err_t \<Rightarrow> event list" where
  "rx_warning err =
     (if ESP_OK \<noteq> err then [Log LOGW ''UART->BLE'' ''Failed to sent to BLE UART'' []] else [])"

definition tx_warning :: "esp_err_t \<Rightarrow> event list" where
  "tx_warning err =
     (if ESP_OK \<noteq> err then [Log LOGW ''BLE->UART'' ''Failed send to USB UART'' []] else [])"

text \<open>Device events that are a disconnect; events that only log.\<close>

definition is_disconnect :: "cdc_acm_host_dev_event_data_t \<Rightarrow> bool" where
  "is_disconnect e = (case e of CDC_ACM_HOST_DEVICE_DISCONNECTED h \<Rightarrow> True | _ \<Rightarrow> False)"

definition is_log :: "event \<Rightarrow> bool" where
  "is_log e = (case e of Log l t f a \<Rightarrow> True | LogStr l t s \<Rightarrow> True | _ \<Rightarrow> False)"

text \<open>The line feed that follows the CR in a line ending.\<close>

definition LF :: byte where
  "LF = 10"

text \<open>
  The events of one turn of the \<^verbatim>\<open>echoTask\<close> loop when the item fits the buffer, and
  what fitting means: the item has \<open>item_size\<close> bytes and leaves room for the terminator.
\<close>

fun pump_turn :: "echo_input \<Rightarrow> event list" where
  "pump_turn QueueAbsent = [TaskDelay 1000]"
| "pump_turn NoItem = []"
| "pump_turn (Item item item_size cdc_dev err) =
     [LogStr LOGI ''BLE->UART'' (until_NUL item),
      UsbTx cdc_dev (until_NUL item) (length (until_NUL item)) 1000]
     @ tx_warning err @ [ReturnItem]"

fun fits :: "nat \<Rightarrow> echo_input \<Rightarrow> bool" where
  "fits cap (Item item item_size cdc_dev err) \<longleftrightarrow>
     length item = unat item_size \<and> unat item_size < cap"
| "fits cap _ \<longleftrightarrow> True"

text \<open>The two events every turn of the \<^verbatim>\<open>app_main\<close> loop starts with.\<close>

definition opening_events :: "event list" where
  "opening_events =
     [Log LOGI TAG ''Opening CDC ACM device 0x%04X:0x%04X...'' [0x1FC9, 0x0094],
      UsbOpen 0x1FC9 0x0094 0]"

text \<open>
  Three sessions to try the loop on: no device to open; a device that takes every
  command (and reports 9600 baud, 7 data bits before the set); a device that refuses
  the line coding set.
\<close>

definition env_no_device :: session_env where
  "env_no_device =
     \<lparr>open_res = (- 1, None),
      get1_res = (- 1, \<lparr>dwDTERate = 0, bCharFormat = 0, bParityType = 0, bDataBits = 0\<rparr>),
      set_res = - 1,
      get2_res = (- 1, \<lparr>dwDTERate = 0, bCharFormat = 0, bParityType = 0, bDataBits = 0\<rparr>),
      ctl_res = - 1\<rparr>"

definition env_device :: session_env where
  "env_device =
     \<lparr>open_res = (ESP_OK, Some 1),
      get1_res = (ESP_OK,
        \<lparr>dwDTERate = 9600, bCharFormat = 0, bParityType = 0, bDataBits = 7\<rparr>),
      set_res = ESP_OK,
      get2_res = (ESP_OK,
        \<lparr>dwDTERate = 115200, bCharFormat = 1, bParityType = 0, bDataBits = 8\<rparr>),
      ctl_res = ESP_OK\<rparr>"

definition env_set_refused :: session_env where
  "env_set_refused = env_device\<lparr>set_res := - 1\<rparr>"

section \<open>Properties\<close>

subsection \<open>Copying a chunk into the line buffer\<close>

lemma until_NUL_prefix: "NUL \<notin> set p \<Longrightarrow> until_NUL (p @ NUL # r) = p"
  unfolding until_NUL_def by (induction p) auto

lemma until_NUL_length_le: "length (until_NUL bs) \<le> length bs"
  by (simp add: until_NUL_def length_takeWhile_le)

lemma until_NUL_id: "NUL \<notin> set bs \<Longrightarrow> until_NUL bs = bs"
  by (auto simp: until_NUL_def)

lemma until_NUL_shorter: "NUL \<in> set bs \<Longrightarrow> length (until_NUL bs) < length bs"
  unfolding until_NUL_def by (induction bs) auto

lemma NUL_notin_until_NUL: "NUL \<notin> set (until_NUL bs)"
  unfolding until_NUL_def by (auto dest: set_takeWhileD)

lemma until_NUL_take: "until_NUL bs = take (length (until_NUL bs)) bs"
  unfolding until_NUL_def by (rule takeWhile_eq_take)

lemma until_NUL_nth: "i < length (until_NUL bs) \<Longrightarrow> until_NUL bs ! i = bs ! i"
  unfolding until_NUL_def by (rule takeWhile_nth)

lemma length_framed: "length src < length dest \<Longrightarrow> length (framed dest src) = length dest"
  using until_NUL_length_le [of src] by (simp add: framed_def)

lemma framed_terminated: "framed dest src ! length src = NUL"
proof -
  let ?s = "until_NUL src"
  have len: "length ?s \<le> length src" by (rule until_NUL_length_le)
  then have "length src - length ?s < Suc (length src) - length ?s" by simp
  then show ?thesis
    using len by (simp add: framed_def nth_append)
qed

lemma c_str_framed: "c_str (framed dest src) = Inr (until_NUL src)"
proof -
  let ?s = "until_NUL src"
  have len: "length ?s \<le> length src" by (rule until_NUL_length_le)
  then obtain k where k: "Suc (length src) - length ?s = Suc k"
    by (metis Suc_diff_le)
  have shape: "framed dest src = ?s @ NUL # (replicate k NUL @ drop (Suc (length src)) dest)"
    by (simp add: framed_def k)
  have "NUL \<in> set (framed dest src)" by (simp add: shape)
  moreover have "until_NUL (framed dest src) = ?s"
    unfolding shape by (rule until_NUL_prefix) (rule NUL_notin_until_NUL)
  ultimately show ?thesis by (simp add: c_str_def)
qed

lemma copy_and_terminate:
  assumes "length src = n" and "n < length dest"
  shows "bind_res (strncpy dest src n) (\<lambda>m1. store m1 n NUL) = Inr (framed dest src)"
proof -
  let ?s = "until_NUL src"
  have len: "length ?s \<le> n" using assms(1) until_NUL_length_le by blast
  have cp: "strncpy dest src n = Inr (?s @ replicate (n - length ?s) NUL @ drop n dest)"
    using assms by (simp add: strncpy_def Let_def)
  have dr: "drop n dest = dest ! n # drop (Suc n) dest"
    using assms(2) by (simp add: Cons_nth_drop_Suc)
  have "(?s @ replicate (n - length ?s) NUL @ drop n dest)[n := NUL]
        = ?s @ replicate (n - length ?s) NUL @ NUL # drop (Suc n) dest"
    using len by (simp add: dr list_update_append)
  also have "\<dots> = framed dest src"
    using len assms(1) by (simp add: framed_def Suc_diff_le replicate_append_same)
  finally show ?thesis
    using assms len by (simp add: cp bind_res_def store_def)
qed

lemma copy_overflows:
  assumes "length src = n" and "length dest \<le> n"
  shows "bind_res (strncpy dest src n) (\<lambda>m1. store m1 n NUL) = Inl (OOB_Write (length dest))"
proof (cases "length dest < n")
  case True
  then show ?thesis using assms by (simp add: strncpy_def bind_res_def)
next
  case False
  then have eq: "length dest = n" using assms by simp
  have "length (until_NUL src) \<le> n" using assms(1) until_NUL_length_le by blast
  then show ?thesis
    using assms eq by (simp add: strncpy_def bind_res_def Let_def store_def)
qed

lemma unat_minus_2: "2 \<le> unat (w :: size_t) \<Longrightarrow> unat (w - 2) = unat w - 2"
  by (simp add: unat_sub word_le_nat_alt)

lemma unat_minus_2_wraps: "unat (w :: size_t) < 2 \<Longrightarrow> unat (w - 2) = unat w + 4294967294"
  by (simp add: unat_sub_if' word_less_nat_alt split: if_splits)

lemma framed_nth:
  assumes "i \<le> length src"
  shows "framed dest src ! i = (if i < length (until_NUL src) then src ! i else NUL)"
proof -
  let ?s = "until_NUL src"
  have len: "length ?s \<le> length src" by (rule until_NUL_length_le)
  show ?thesis
  proof (cases "i < length ?s")
    case True
    then show ?thesis by (simp add: framed_def nth_append until_NUL_nth)
  next
    case False
    then have "i - length ?s < Suc (length src) - length ?s" using assms len by simp
    then show ?thesis using False by (simp add: framed_def nth_append)
  qed
qed

lemma framed_CR_iff:
  assumes "2 \<le> length src"
  shows "framed dest src ! (length src - 2) = CR \<longleftrightarrow> cr_found src"
  using assms by (simp add: framed_nth cr_found_def CR_def NUL_def)

lemma c_str_stripped:
  assumes "2 \<le> length src" and "cr_found src"
  shows "c_str ((framed dest src)[length src - 2 := NUL]) = Inr (take (length src - 2) src)"
proof -
  let ?s = "until_NUL src" and ?i = "length src - 2"
  have i: "?i < length ?s" using assms(2) by (simp add: cr_found_def)
  have pre: "take ?i ?s = take ?i src"
    using i until_NUL_take [of src] by (metis min.absorb4 take_take min.commute)
  have "(framed dest src)[?i := NUL]
        = ?s[?i := NUL] @ replicate (Suc (length src) - length ?s) NUL @ drop (Suc (length src)) dest"
    using i by (simp add: framed_def list_update_append)
  also have "?s[?i := NUL] = take ?i src @ NUL # drop (Suc ?i) ?s"
    using i by (simp add: upd_conv_take_nth_drop pre)
  finally have shape: "(framed dest src)[?i := NUL]
        = take ?i src @ NUL # (drop (Suc ?i) ?s @ replicate (Suc (length src) - length ?s) NUL
            @ drop (Suc (length src)) dest)"
    by simp
  have "NUL \<notin> set (take ?i ?s)"
    using NUL_notin_until_NUL [of src] by (meson in_set_takeD)
  then have clean: "NUL \<notin> set (take ?i src)" by (simp add: pre)
  have "NUL \<in> set ((framed dest src)[?i := NUL])" by (simp add: shape)
  moreover have "until_NUL ((framed dest src)[?i := NUL]) = take ?i src"
    unfolding shape by (rule until_NUL_prefix) (rule clean)
  ultimately show ?thesis by (simp add: c_str_def)
qed

lemma handle_rx_in_range:
  assumes "length data = unat data_len" and "2 \<le> unat data_len"
    and "unat data_len < length mbuf"
  shows "handle_rx err mbuf data data_len =
           Inr (rx_buffer mbuf data,
                NordicSend (until_NUL data) # rx_warning err
                  @ [LogStr LOGI ''UART->BLE'' (rx_logged data)],
                True)"
proof -
  let ?n = "unat data_len" and ?m2 = "framed mbuf data"
  have two: "2 \<le> length data" using assms by simp
  have idx: "unat (data_len - 2) = length data - 2"
    using assms by (simp add: unat_minus_2)
  have lenm: "length ?m2 = length mbuf" using assms by (simp add: length_framed)
  have inb: "length data - 2 < length ?m2" using assms lenm by simp
  have step1: "bind_res (strncpy mbuf data ?n) (\<lambda>m1. bind_res (store m1 ?n NUL) k)
               = k ?m2" for k :: "byte list \<Rightarrow> fault + (byte list \<times> event list \<times> bool)"
    using copy_and_terminate [of data ?n mbuf] assms
    by (auto simp: bind_res_def split: sum.splits)
  have ld: "load ?m2 (length data - 2) = Inr (?m2 ! (length data - 2))"
    using inb by (simp add: load_def)
  show ?thesis
  proof (cases "cr_found data")
    case True
    then have c: "?m2 ! (length data - 2) = CR" using two by (simp add: framed_CR_iff)
    show ?thesis
      unfolding handle_rx_def step1
      using True c inb two
      by (simp add: bind_res_def c_str_framed idx ld store_def c_str_stripped
          rx_buffer_def rx_logged_def rx_warning_def Let_def)
  next
    case False
    then have c: "?m2 ! (length data - 2) \<noteq> CR" using two by (simp add: framed_CR_iff)
    show ?thesis
      unfolding handle_rx_def step1
      using False c inb two
      by (simp add: bind_res_def c_str_framed idx ld
          rx_buffer_def rx_logged_def rx_warning_def Let_def)
  qed
qed

lemma handle_rx_underflow:
  assumes "length data = unat data_len" and "unat data_len < 2"
    and "unat data_len < length mbuf" and "length mbuf \<le> 4294967294"
  shows "handle_rx err mbuf data data_len = Inl (OOB_Read (unat data_len + 4294967294))"
proof -
  let ?n = "unat data_len" and ?m2 = "framed mbuf data"
  have idx: "unat (data_len - 2) = ?n + 4294967294"
    using assms(2) by (rule unat_minus_2_wraps)
  have lenm: "length ?m2 = length mbuf" using assms by (simp add: length_framed)
  have step1: "bind_res (strncpy mbuf data ?n) (\<lambda>m1. bind_res (store m1 ?n NUL) k)
               = k ?m2" for k :: "byte list \<Rightarrow> fault + (byte list \<times> event list \<times> bool)"
    using copy_and_terminate [of data ?n mbuf] assms
    by (auto simp: bind_res_def split: sum.splits)
  show ?thesis
    unfolding handle_rx_def step1
    using assms(4) lenm
    by (simp add: bind_res_def c_str_framed idx load_def Let_def)
qed

lemma echo_item_in_range:
  assumes "length item = unat item_size" and "unat item_size < length mbuf"
  shows "echo_item mbuf cdc_dev err item item_size =
           Inr (framed mbuf item,
                [LogStr LOGI ''BLE->UART'' (until_NUL item),
                 UsbTx cdc_dev (until_NUL item) (length (until_NUL item)) 1000]
                @ tx_warning err @ [ReturnItem])"
proof -
  let ?n = "unat item_size" and ?m2 = "framed mbuf item"
  have step1: "bind_res (strncpy mbuf item ?n) (\<lambda>m1. bind_res (store m1 ?n NUL) k)
               = k ?m2" for k :: "byte list \<Rightarrow> fault + (byte list \<times> event list)"
    using copy_and_terminate [of item ?n mbuf] assms
    by (auto simp: bind_res_def split: sum.splits)
  have tk: "take (length (until_NUL item)) ?m2 = until_NUL item"
    by (simp add: framed_def)
  show ?thesis
    unfolding echo_item_def step1
    by (simp add: bind_res_def c_str_framed Let_def tk tx_warning_def USB_TX_TIMEOUT_MS_def)
qed

lemma echo_item_overflow:
  assumes "length item = unat item_size" and "length mbuf \<le> unat item_size"
  shows "echo_item mbuf cdc_dev err item item_size = Inl (OOB_Write (length mbuf))"
proof -
  have "bind_res (strncpy mbuf item (unat item_size)) (\<lambda>m1. bind_res (store m1 (unat item_size) NUL) k)
        = Inl (OOB_Write (length mbuf))"
    for k :: "byte list \<Rightarrow> fault + (byte list \<times> event list)"
    using copy_overflows [of item "unat item_size" mbuf] assms
    by (auto simp: bind_res_def split: sum.splits)
  then show ?thesis unfolding echo_item_def .
qed

text \<open>
  What \<^verbatim>\<open>handle_rx\<close> does to a chunk of at least two bytes that fits: a terminator at
  index \<open>data_len\<close>; a terminator at \<open>data_len - 2\<close> as well when the chunk has a CR
  there; and a buffer that holds a C string, which is the chunk up to its first NUL, cut
  at \<open>data_len - 2\<close> when the CR was replaced.
\<close>

lemma handle_rx_frames_chunk:
  assumes "length data = unat data_len" and "2 \<le> unat data_len"
    and "unat data_len < length mbuf"
  shows "\<exists>m evs. handle_rx err mbuf data data_len = Inr (m, evs, True)
           \<and> length m = length mbuf
           \<and> m ! unat data_len = NUL
           \<and> (data ! (unat data_len - 2) = CR \<longrightarrow> m ! (unat data_len - 2) = NUL)
           \<and> c_str m = Inr (rx_logged data)
           \<and> (NUL \<notin> set data \<longrightarrow>
                rx_logged data =
                  (if data ! (unat data_len - 2) = CR then take (unat data_len - 2) data
                   else data))"
proof -
  let ?n = "length data"
  have n: "unat data_len = ?n" using assms(1) by simp
  have two: "2 \<le> ?n" using assms by simp
  have fit: "?n < length mbuf" using assms by simp
  have len: "length (rx_buffer mbuf data) = length mbuf"
    using fit by (simp add: rx_buffer_def length_framed)
  have nul: "rx_buffer mbuf data ! ?n = NUL"
    using two fit by (simp add: rx_buffer_def framed_terminated length_framed)
  have cr: "rx_buffer mbuf data ! (?n - 2) = NUL" if "data ! (?n - 2) = CR"
  proof (cases "cr_found data")
    case True
    then show ?thesis using fit by (simp add: rx_buffer_def length_framed)
  next
    case False
    with that have "\<not> ?n - 2 < length (until_NUL data)" by (simp add: cr_found_def)
    then show ?thesis using False by (simp add: rx_buffer_def framed_nth)
  qed
  have str: "c_str (rx_buffer mbuf data) = Inr (rx_logged data)"
    using two by (simp add: rx_buffer_def rx_logged_def c_str_framed c_str_stripped)
  have clean: "rx_logged data =
      (if data ! (?n - 2) = CR then take (?n - 2) data else data)" if "NUL \<notin> set data"
  proof -
    have "length data - 2 < length data" using two by simp
    then show ?thesis using that by (simp add: rx_logged_def cr_found_def until_NUL_id)
  qed
  show ?thesis
    using handle_rx_in_range [OF assms, of err] len nul cr str clean
    by (simp add: n)
qed

subsection \<open>Device events and the disconnect signal\<close>

lemma handle_event_other:
  "\<not> is_disconnect e \<Longrightarrow> snd (handle_event r e) = Some () \<and> list_all is_log (fst (handle_event r e))"
  by (cases e) (simp_all add: is_disconnect_def is_log_def)

lemma apply_log: "is_log e \<Longrightarrow> apply_event w e = w"
  by (cases e) (simp_all add: is_log_def)

lemma states_along_nonempty: "states_along w evs \<noteq> []"
  by (cases evs) simp_all

lemma states_along_append:
  "states_along w (xs @ ys) = butlast (states_along w xs) @ states_along (foldl apply_event w xs) ys"
  by (induction xs arbitrary: w) (auto simp: states_along_nonempty)

lemma states_along_logs:
  "list_all is_log evs \<Longrightarrow> set (states_along w evs) = {w}"
  by (induction evs) (auto simp: apply_log)

lemma foldl_logs: "list_all is_log evs \<Longrightarrow> foldl apply_event w evs = w"
  by (induction evs) (auto simp: apply_log)

lemma handle_events_pre:
  assumes "\<forall>x\<in>set pre. \<not> is_disconnect (snd x)"
  shows "list_all is_log (fst (handle_events pre)) \<and> snd (handle_events pre) = Some ()"
  using assms
proof (induction pre)
  case Nil
  then show ?case by simp
next
  case (Cons x pre)
  obtain r e where x: "x = (r, e)" by (cases x)
  with Cons.prems have nd: "\<not> is_disconnect e" by simp
  from Cons have ih: "list_all is_log (fst (handle_events pre)) \<and> snd (handle_events pre) = Some ()"
    by simp
  show ?case
    using handle_event_other [OF nd, of r] ih
    by (cases "handle_event r e") (auto simp: x)
qed

lemma handle_events_append:
  "snd (handle_events pre) = Some () \<Longrightarrow>
   handle_events (pre @ es) = (fst (handle_events pre) @ fst (handle_events es), snd (handle_events es))"
proof (induction pre)
  case Nil
  then show ?case by simp
next
  case (Cons x pre)
  obtain r e where x: "x = (r, e)" by (cases x)
  show ?case
    using Cons
    by (cases "handle_event r e") (auto simp: x split: option.splits)
qed

lemma count_events_logs: "list_all is_log evs \<Longrightarrow> count_events SemGive evs = 0"
  by (induction evs) (auto simp: count_events_def is_log_def)

lemma count_events_append: "count_events e (xs @ ys) = count_events e xs + count_events e ys"
  by (simp add: count_events_def)

subsection \<open>The disconnect event\<close>

text \<open>
  Claim C6. On a disconnect event \<^verbatim>\<open>handle_event\<close> closes the device handle and only
  then gives the disconnect signal. Over the device events of one session (any events
  that are not a disconnect, then the disconnect) the signal is given exactly once when
  the close succeeds, and starting from a drained signal no state along the way has the
  signal set while the handle of the event is still open, whatever the close returns.
\<close>

theorem disconnect_closes_before_signal:
  assumes "\<not> sem w" and "\<forall>x\<in>set pre. \<not> is_disconnect (snd x)"
  shows "handle_event ESP_OK (CDC_ACM_HOST_DEVICE_DISCONNECTED h)
           = ([Log LOGI TAG ''Device suddenly disconnected'' [], UsbClose h ESP_OK, SemGive],
              Some ())
       \<and> (\<forall>w'\<in>set (states_along w
                 (fst (handle_events (pre @ [(r, CDC_ACM_HOST_DEVICE_DISCONNECTED h)])))).
             sem w' \<longrightarrow> h \<notin> set (open_hdls w'))
       \<and> count_events SemGive
            (fst (handle_events (pre @ [(ESP_OK, CDC_ACM_HOST_DEVICE_DISCONNECTED h)]))) = 1"
proof -
  note pre = handle_events_pre [OF assms(2)]
  have ev: "fst (handle_events (pre @ es)) = fst (handle_events pre) @ fst (handle_events es)"
    for es
    using pre by (simp add: handle_events_append)
  have one: "handle_event ESP_OK (CDC_ACM_HOST_DEVICE_DISCONNECTED h)
           = ([Log LOGI TAG ''Device suddenly disconnected'' [], UsbClose h ESP_OK, SemGive],
              Some ())"
    by (simp add: ESP_ERROR_CHECK_def)
  have along: "sem w' \<longrightarrow> h \<notin> set (open_hdls w')"
    if "w' \<in> set (states_along w
                 (fst (handle_events (pre @ [(r, CDC_ACM_HOST_DEVICE_DISCONNECTED h)]))))"
    for w'
  proof -
    from that have "w' \<in> set (butlast (states_along w (fst (handle_events pre))))
        \<or> w' \<in> set (states_along w
                 (fst (handle_events [(r, CDC_ACM_HOST_DEVICE_DISCONNECTED h)])))"
      using pre by (simp add: ev states_along_append foldl_logs)
    then show ?thesis
    proof
      assume "w' \<in> set (butlast (states_along w (fst (handle_events pre))))"
      then have "w' \<in> set (states_along w (fst (handle_events pre)))"
        by (rule in_set_butlastD)
      then have "w' = w" using pre by (simp add: states_along_logs)
      then show ?thesis using assms(1) by simp
    next
      assume "w' \<in> set (states_along w
                 (fst (handle_events [(r, CDC_ACM_HOST_DEVICE_DISCONNECTED h)])))"
      then show ?thesis
        using assms(1) by (auto simp: ESP_ERROR_CHECK_def split: if_splits)
    qed
  qed
  have cnt: "count_events SemGive
            (fst (handle_events (pre @ [(ESP_OK, CDC_ACM_HOST_DEVICE_DISCONNECTED h)]))) = 1"
    using pre
    by (simp add: ev count_events_append count_events_logs)
       (simp add: count_events_def ESP_ERROR_CHECK_def)
  show ?thesis using one along cnt by blast
qed

text \<open>
  A session with a serial-state notification and then the disconnect of the open handle:
  the three states the world goes through, and the one signal.
\<close>

theorem disconnect_closes_before_signal_witness:
  "\<not> sem \<lparr>open_hdls = [Some 1], sem = False\<rparr>
   \<and> \<not> is_disconnect (CDC_ACM_HOST_SERIAL_STATE 3)
   \<and> states_along \<lparr>open_hdls = [Some 1], sem = False\<rparr>
        (fst (handle_events [(ESP_OK, CDC_ACM_HOST_SERIAL_STATE 3),
                             (ESP_OK, CDC_ACM_HOST_DEVICE_DISCONNECTED (Some 1))]))
      = [\<lparr>open_hdls = [Some 1], sem = False\<rparr>, \<lparr>open_hdls = [Some 1], sem = False\<rparr>,
         \<lparr>open_hdls = [Some 1], sem = False\<rparr>, \<lparr>open_hdls = [], sem = False\<rparr>,
         \<lparr>open_hdls = [], sem = True\<rparr>]
   \<and> list_all (\<lambda>w'. \<not> (sem w' \<and> Some 1 \<in> set (open_hdls w')))
        (states_along \<lparr>open_hdls = [Some 1], sem = False\<rparr>
           (fst (handle_events [(ESP_OK, CDC_ACM_HOST_SERIAL_STATE 3),
                                (ESP_OK, CDC_ACM_HOST_DEVICE_DISCONNECTED (Some 1))])))
   \<and> count_events SemGive
        (fst (handle_events [(ESP_OK, CDC_ACM_HOST_SERIAL_STATE 3),
                             (ESP_OK, CDC_ACM_HOST_DEVICE_DISCONNECTED (Some 1))])) = 1"
proof -
  have a: "\<not> sem \<lparr>open_hdls = [Some 1], sem = False\<rparr>" by simp
  have b: "\<forall>x\<in>set [(ESP_OK, CDC_ACM_HOST_SERIAL_STATE 3)]. \<not> is_disconnect (snd x)"
    by (simp add: is_disconnect_def)
  have c: "states_along \<lparr>open_hdls = [Some 1], sem = False\<rparr>
        (fst (handle_events [(ESP_OK, CDC_ACM_HOST_SERIAL_STATE 3),
                             (ESP_OK, CDC_ACM_HOST_DEVICE_DISCONNECTED (Some 1))]))
      = [\<lparr>open_hdls = [Some 1], sem = False\<rparr>, \<lparr>open_hdls = [Some 1], sem = False\<rparr>,
         \<lparr>open_hdls = [Some 1], sem = False\<rparr>, \<lparr>open_hdls = [], sem = False\<rparr>,
         \<lparr>open_hdls = [], sem = True\<rparr>]"
    by (simp add: ESP_ERROR_CHECK_def)
  note inst = disconnect_closes_before_signal [OF a b, of "Some 1" ESP_OK]
  have d: "list_all (\<lambda>w'. \<not> (sem w' \<and> Some 1 \<in> set (open_hdls w')))
        (states_along \<lparr>open_hdls = [Some 1], sem = False\<rparr>
           (fst (handle_events [(ESP_OK, CDC_ACM_HOST_SERIAL_STATE 3),
                                (ESP_OK, CDC_ACM_HOST_DEVICE_DISCONNECTED (Some 1))])))"
    unfolding list_all_iff using inst by auto
  have e: "count_events SemGive
        (fst (handle_events [(ESP_OK, CDC_ACM_HOST_SERIAL_STATE 3),
                             (ESP_OK, CDC_ACM_HOST_DEVICE_DISCONNECTED (Some 1))])) = 1"
    using inst by (simp add: ESP_ERROR_CHECK_def)
  show ?thesis
    using a b c d e by (simp add: is_disconnect_def)
qed

subsection \<open>Chunks that do not fit, chunks that are too short\<close>

text \<open>
  Claim C2. A chunk as long as the line buffer, or longer, is not rejected:
  \<^verbatim>\<open>handle_rx\<close> has no check of \<^verbatim>\<open>data_len\<close>, and the copy or the terminator is written
  at index \<open>length mbuf\<close>, one past the last byte of the buffer. No error is reported
  and nothing is truncated.
\<close>

theorem handle_rx_oversized_chunk_overflows:
  assumes "length data = unat data_len" and "length mbuf \<le> unat data_len"
  shows "handle_rx err mbuf data data_len = Inl (OOB_Write (length mbuf))"
proof -
  have "bind_res (strncpy mbuf data (unat data_len))
          (\<lambda>m1. bind_res (store m1 (unat data_len) NUL) k)
        = Inl (OOB_Write (length mbuf))"
    for k :: "byte list \<Rightarrow> fault + (byte list \<times> event list \<times> bool)"
    using copy_overflows [of data "unat data_len" mbuf] assms
    by (auto simp: bind_res_def split: sum.splits)
  then show ?thesis unfolding handle_rx_def .
qed

text \<open>Eight bytes for a buffer of eight: the terminator would go to index 8.\<close>

theorem handle_rx_oversized_chunk_overflows_witness:
  "length [0x41, 0x42, 0x43, 0x44, 0x45, 0x46, 0x0D, 0x0A :: byte] = unat (8 :: size_t)
   \<and> length (mbuf_init 7) \<le> unat (8 :: size_t)
   \<and> handle_rx ESP_OK (mbuf_init 7) [0x41, 0x42, 0x43, 0x44, 0x45, 0x46, 0x0D, 0x0A] 8
       = Inl (OOB_Write 8)"
proof -
  have a: "length [0x41, 0x42, 0x43, 0x44, 0x45, 0x46, 0x0D, 0x0A :: byte] = unat (8 :: size_t)"
    by simp
  have b: "length (mbuf_init 7) \<le> unat (8 :: size_t)"
    by (simp add: mbuf_init_def)
  show ?thesis
    using a b handle_rx_oversized_chunk_overflows [OF a b, of ESP_OK]
    by (simp add: mbuf_init_def)
qed

text \<open>
  Claim C3. For a chunk of fewer than two bytes the read of \<^verbatim>\<open>mbuf[data_len - 2]\<close> is
  not guarded: \<^verbatim>\<open>data_len - 2\<close> wraps around in \<^verbatim>\<open>size_t\<close>, and \<^verbatim>\<open>handle_rx\<close> reads at
  that index, which no line buffer has.
\<close>

theorem handle_rx_short_chunk_reads_out_of_bounds:
  assumes "length data = unat data_len" and "unat data_len < 2"
    and "unat data_len < length mbuf" and "length mbuf \<le> 4294967294"
  shows "handle_rx err mbuf data data_len = Inl (OOB_Read (unat (data_len - 2)))
       \<and> length mbuf \<le> unat (data_len - 2)"
  using handle_rx_underflow [OF assms, of err] assms(2,4)
  by (simp add: unat_minus_2_wraps)

text \<open>The chunk \<^verbatim>\<open>"A"\<close> and the empty chunk, with a buffer of 64 bytes.\<close>

theorem handle_rx_short_chunk_reads_out_of_bounds_witness:
  "length [0x41 :: byte] = unat (1 :: size_t) \<and> unat (1 :: size_t) < 2
   \<and> unat (1 :: size_t) < length (mbuf_init 63) \<and> length (mbuf_init 63) \<le> 4294967294
   \<and> handle_rx ESP_OK (mbuf_init 63) [0x41] 1 = Inl (OOB_Read 4294967295)
   \<and> handle_rx ESP_OK (mbuf_init 63) [] 0 = Inl (OOB_Read 4294967294)"
proof -
  have l: "length (mbuf_init 63) = 64" by (simp add: mbuf_init_def)
  have one: "handle_rx ESP_OK (mbuf_init 63) [0x41] 1 = Inl (OOB_Read 4294967295)"
    using handle_rx_short_chunk_reads_out_of_bounds [of "[0x41]" 1 "mbuf_init 63" ESP_OK]
      unat_minus_2_wraps [of 1]
    by (simp add: l)
  have zero: "handle_rx ESP_OK (mbuf_init 63) [] 0 = Inl (OOB_Read 4294967294)"
    using handle_rx_short_chunk_reads_out_of_bounds [of "[]" 0 "mbuf_init 63" ESP_OK]
      unat_minus_2_wraps [of 0]
    by (simp add: l)
  show ?thesis using one zero by (simp add: l)
qed

text \<open>
  Claim C1. The claim covers chunks of one byte. For the chunk \<^verbatim>\<open>"\n"\<close> and a buffer of
  64 bytes \<^verbatim>\<open>handle_rx\<close> does not end with a framed buffer: after the terminator and the
  send it reads \<^verbatim>\<open>mbuf[data_len - 2]\<close>, index \<open>2^32 - 1\<close>. (For chunks of two bytes
  and more that fit, \<open>handle_rx_frames_chunk\<close> above is what the claim says.)
\<close>

theorem handle_rx_one_byte_chunk_faults:
  "handle_rx ESP_OK (mbuf_init 63) [0x0A] 1 = Inl (OOB_Read 4294967295)"
  using handle_rx_underflow [of "[0x0A]" 1 "mbuf_init 63" ESP_OK]
  by (simp add: mbuf_init_def)

subsection \<open>The wired to wireless pump\<close>

text \<open>
  Claim C4, as the code has it. For every chunk of at least two bytes that fits the line
  buffer, \<^verbatim>\<open>handle_rx\<close> copies the chunk, writes the terminator at \<open>data_len\<close> and
  sends the C string of that buffer on the wireless side: the chunk up to its first NUL.
  Only after the send is a CR at \<open>data_len - 2\<close> replaced by the terminator; the line
  logged is the C string of the buffer after that. So a chunk without NUL bytes is sent
  whole; when it ends in CR LF the line sent has the CR and LF, and the line logged
  afterwards, which is what the buffer is left with, is the chunk without them.
\<close>

theorem handle_rx_sends_then_strips:
  assumes "length data = unat data_len" and "2 \<le> unat data_len"
    and "unat data_len < length mbuf"
  shows "handle_rx err mbuf data data_len =
           Inr (rx_buffer mbuf data,
                NordicSend (until_NUL data) # rx_warning err
                  @ [LogStr LOGI ''UART->BLE'' (rx_logged data)],
                True)
       \<and> bind_res (strncpy mbuf data (unat data_len)) (\<lambda>m1. store m1 (unat data_len) NUL)
           = Inr (framed mbuf data)
       \<and> c_str (framed mbuf data) = Inr (until_NUL data)
       \<and> c_str (rx_buffer mbuf data) = Inr (rx_logged data)
       \<and> (NUL \<notin> set data \<longrightarrow>
            until_NUL data = data
            \<and> rx_logged data =
                (if data ! (unat data_len - 2) = CR then take (unat data_len - 2) data
                 else data))
       \<and> (\<forall>body. data = body @ [CR, LF] \<and> NUL \<notin> set body \<longrightarrow>
            until_NUL data = body @ [CR, LF] \<and> rx_logged data = body)"
proof -
  let ?n = "length data"
  have n: "unat data_len = ?n" using assms(1) by simp
  have two: "2 \<le> ?n" using assms by simp
  have fit: "?n < length mbuf" using assms by simp
  have run: "handle_rx err mbuf data data_len =
           Inr (rx_buffer mbuf data,
                NordicSend (until_NUL data) # rx_warning err
                  @ [LogStr LOGI ''UART->BLE'' (rx_logged data)],
                True)"
    by (rule handle_rx_in_range [OF assms])
  have cp: "bind_res (strncpy mbuf data (unat data_len)) (\<lambda>m1. store m1 (unat data_len) NUL)
           = Inr (framed mbuf data)"
    using copy_and_terminate [of data ?n mbuf] fit by (simp add: n)
  have sent: "c_str (framed mbuf data) = Inr (until_NUL data)"
    by (rule c_str_framed)
  have left: "c_str (rx_buffer mbuf data) = Inr (rx_logged data)"
    using two by (simp add: rx_buffer_def rx_logged_def c_str_framed c_str_stripped)
  have clean: "until_NUL data = data
      \<and> rx_logged data = (if data ! (?n - 2) = CR then take (?n - 2) data else data)"
    if "NUL \<notin> set data"
  proof -
    have "?n - 2 < ?n" using two by simp
    then show ?thesis using that by (simp add: rx_logged_def cr_found_def until_NUL_id)
  qed
  have crlf: "until_NUL data = body @ [CR, LF] \<and> rx_logged data = body"
    if "data = body @ [CR, LF] \<and> NUL \<notin> set body" for body
  proof -
    from that have d: "data = body @ [CR, LF]" and b: "NUL \<notin> set body" by simp_all
    have nn: "NUL \<notin> set data" using d b by (simp add: CR_def LF_def NUL_def)
    have k: "?n - 2 = length body" using d by simp
    have "data ! (?n - 2) = CR" using d by (simp add: k nth_append)
    then show ?thesis using clean [OF nn] d by (simp add: k)
  qed
  show ?thesis using run cp sent left clean crlf by (simp add: n)
qed

text \<open>
  The chunks \<^verbatim>\<open>"OK\r\n"\<close> and \<^verbatim>\<open>"ABC"\<close> with a buffer of 64 bytes: both sent as they
  came; the first logged without its CR and LF.
\<close>

theorem handle_rx_sends_then_strips_witness:
  "length [0x4F, 0x4B, 0x0D, 0x0A :: byte] = unat (4 :: size_t)
   \<and> 2 \<le> unat (4 :: size_t)
   \<and> unat (4 :: size_t) < length (mbuf_init 63)
   \<and> [0x4F, 0x4B, 0x0D, 0x0A] = [0x4F, 0x4B] @ [CR, LF] \<and> NUL \<notin> set [0x4F, 0x4B]
   \<and> snd (projr (handle_rx ESP_OK (mbuf_init 63) [0x4F, 0x4B, 0x0D, 0x0A] 4))
       = ([NordicSend [0x4F, 0x4B, 0x0D, 0x0A], LogStr LOGI ''UART->BLE'' [0x4F, 0x4B]], True)
   \<and> length [0x41, 0x42, 0x43 :: byte] = unat (3 :: size_t)
   \<and> NUL \<notin> set [0x41, 0x42, 0x43]
   \<and> snd (projr (handle_rx ESP_OK (mbuf_init 63) [0x41, 0x42, 0x43] 3))
       = ([NordicSend [0x41, 0x42, 0x43], LogStr LOGI ''UART->BLE'' [0x41, 0x42, 0x43]], True)"
proof -
  have a: "length [0x4F, 0x4B, 0x0D, 0x0A :: byte] = unat (4 :: size_t)" by simp
  have b: "2 \<le> unat (4 :: size_t)" by simp
  have c: "unat (4 :: size_t) < length (mbuf_init 63)" by (simp add: mbuf_init_def)
  have d: "[0x4F, 0x4B, 0x0D, 0x0A] = [0x4F, 0x4B] @ [CR, LF] \<and> NUL \<notin> set [0x4F, 0x4B]"
    by (simp add: CR_def LF_def NUL_def)
  note inst = handle_rx_sends_then_strips [OF a b c, of ESP_OK]
  from inst d have s: "until_NUL [0x4F, 0x4B, 0x0D, 0x0A] = [0x4F, 0x4B] @ [CR, LF]"
    and l: "rx_logged [0x4F, 0x4B, 0x0D, 0x0A] = [0x4F, 0x4B]"
    by blast+
  from inst have r: "handle_rx ESP_OK (mbuf_init 63) [0x4F, 0x4B, 0x0D, 0x0A] 4 =
           Inr (rx_buffer (mbuf_init 63) [0x4F, 0x4B, 0x0D, 0x0A],
                NordicSend (until_NUL [0x4F, 0x4B, 0x0D, 0x0A]) # rx_warning ESP_OK
                  @ [LogStr LOGI ''UART->BLE'' (rx_logged [0x4F, 0x4B, 0x0D, 0x0A])],
                True)"
    by blast
  have e: "snd (projr (handle_rx ESP_OK (mbuf_init 63) [0x4F, 0x4B, 0x0D, 0x0A] 4))
       = ([NordicSend [0x4F, 0x4B, 0x0D, 0x0A], LogStr LOGI ''UART->BLE'' [0x4F, 0x4B]], True)"
    by (simp add: r s l rx_warning_def CR_def LF_def)
  have a': "length [0x41, 0x42, 0x43 :: byte] = unat (3 :: size_t)" by simp
  have b': "2 \<le> unat (3 :: size_t)" by simp
  have c': "unat (3 :: size_t) < length (mbuf_init 63)" by (simp add: mbuf_init_def)
  have d': "NUL \<notin> set [0x41, 0x42, 0x43]" by (simp add: NUL_def)
  note inst' = handle_rx_sends_then_strips [OF a' b' c', of ESP_OK]
  from inst' d' have s': "until_NUL [0x41, 0x42, 0x43] = [0x41, 0x42, 0x43]"
    and l': "rx_logged [0x41, 0x42, 0x43] =
       (if [0x41, 0x42, 0x43] ! (unat (3 :: size_t) - 2) = CR
        then take (unat (3 :: size_t) - 2) [0x41, 0x42, 0x43] else [0x41, 0x42, 0x43])"
    by blast+
  have l'': "rx_logged [0x41, 0x42, 0x43] = [0x41, 0x42, 0x43]"
    by (simp add: l' CR_def)
  from inst' have r': "handle_rx ESP_OK (mbuf_init 63) [0x41, 0x42, 0x43] 3 =
           Inr (rx_buffer (mbuf_init 63) [0x41, 0x42, 0x43],
                NordicSend (until_NUL [0x41, 0x42, 0x43]) # rx_warning ESP_OK
                  @ [LogStr LOGI ''UART->BLE'' (rx_logged [0x41, 0x42, 0x43])],
                True)"
    by blast
  have e': "snd (projr (handle_rx ESP_OK (mbuf_init 63) [0x41, 0x42, 0x43] 3))
       = ([NordicSend [0x41, 0x42, 0x43], LogStr LOGI ''UART->BLE'' [0x41, 0x42, 0x43]], True)"
    by (simp add: r' s' l'' rx_warning_def)
  show ?thesis using a b c d e a' d' e' by blast
qed

text \<open>The chunk \<^verbatim>\<open>"OK\r\n"\<close>: sent with CR and LF, logged without.\<close>

theorem handle_rx_sends_CR_LF_counterexample:
  "handle_rx ESP_OK (mbuf_init 7) [0x4F, 0x4B, 0x0D, 0x0A] 4
     = Inr ([0x4F, 0x4B, 0, 0x0A, 0, 0, 0, 0],
            [NordicSend [0x4F, 0x4B, 0x0D, 0x0A], LogStr LOGI ''UART->BLE'' [0x4F, 0x4B]],
            True)"
  by code_simp

subsection \<open>The wireless to wired pump\<close>

lemma echoTask_trace:
  "list_all (fits (length mbuf)) ins \<Longrightarrow>
   \<exists>m. echoTask mbuf ins = Inr (m, concat (map pump_turn ins)) \<and> length m = length mbuf"
proof (induction ins arbitrary: mbuf)
  case Nil
  then show ?case by simp
next
  case (Cons x ins)
  show ?case
  proof (cases x)
    case QueueAbsent
    with Cons show ?thesis by (fastforce simp: bind_res_def)
  next
    case NoItem
    with Cons show ?thesis by simp
  next
    case (Item item item_size cdc_dev err)
    with Cons.prems have len: "length item = unat item_size" and fit: "unat item_size < length mbuf"
      and rest: "list_all (fits (length mbuf)) ins"
      by simp_all
    have l: "length (framed mbuf item) = length mbuf"
      using len fit by (simp add: length_framed)
    from Cons.IH [of "framed mbuf item"] rest l
    obtain m where m: "echoTask (framed mbuf item) ins = Inr (m, concat (map pump_turn ins))"
      and lm: "length m = length mbuf"
      by auto
    show ?thesis
      using m lm by (simp add: Item echo_item_in_range [OF len fit] bind_res_def)
  qed
qed

text \<open>
  Claim C5, as the code has it. \<^verbatim>\<open>echoTask\<close> does not look at the device handle: every
  item that fits the line buffer is handed to the wired blocking send with the timeout
  of 1000 ms, with whatever \<^verbatim>\<open>cdc_dev\<close> holds, \<^verbatim>\<open>NULL\<close> included. When the send does not
  return \<open>ESP_OK\<close> a warning is logged; the item is returned to the ring buffer either
  way, and the loop goes on to the next turn without a fault.
\<close>

theorem echoTask_sends_without_checking_the_handle:
  assumes "\<forall>x\<in>set ins. fits (length mbuf) x"
  shows "\<exists>m. echoTask mbuf ins = Inr (m, concat (map pump_turn ins)) \<and> length m = length mbuf"
  using assms echoTask_trace [of mbuf ins] by (simp add: list_all_iff)

theorem echoTask_sends_without_checking_the_handle_witness:
  "fits (length (mbuf_init 3)) (Item [0x41] 1 None 258)
   \<and> fits (length (mbuf_init 3)) (Item [0x42, 0x43] 2 (Some 7) ESP_OK)
   \<and> snd (projr (echoTask (mbuf_init 3)
                    [Item [0x41] 1 None 258, Item [0x42, 0x43] 2 (Some 7) ESP_OK]))
       = [LogStr LOGI ''BLE->UART'' [0x41], UsbTx None [0x41] 1 1000,
          Log LOGW ''BLE->UART'' ''Failed send to USB UART'' [], ReturnItem,
          LogStr LOGI ''BLE->UART'' [0x42, 0x43], UsbTx (Some 7) [0x42, 0x43] 2 1000,
          ReturnItem]"
proof -
  have f1: "fits (length (mbuf_init 3)) (Item [0x41] 1 None 258)"
    by (simp add: mbuf_init_def)
  have f2: "fits (length (mbuf_init 3)) (Item [0x42, 0x43] 2 (Some 7) ESP_OK)"
    by (simp add: mbuf_init_def)
  have f: "\<forall>x\<in>set [Item [0x41] 1 None 258, Item [0x42, 0x43] 2 (Some 7) ESP_OK].
             fits (length (mbuf_init 3)) x"
    using f1 f2 by simp
  have turns: "concat (map pump_turn [Item [0x41] 1 None 258, Item [0x42, 0x43] 2 (Some 7) ESP_OK])
       = [LogStr LOGI ''BLE->UART'' [0x41], UsbTx None [0x41] 1 1000,
          Log LOGW ''BLE->UART'' ''Failed send to USB UART'' [], ReturnItem,
          LogStr LOGI ''BLE->UART'' [0x42, 0x43], UsbTx (Some 7) [0x42, 0x43] 2 1000,
          ReturnItem]"
    by (simp add: tx_warning_def ESP_OK_def until_NUL_def NUL_def)
  obtain m where "echoTask (mbuf_init 3)
                    [Item [0x41] 1 None 258, Item [0x42, 0x43] 2 (Some 7) ESP_OK]
                  = Inr (m, concat (map pump_turn
                      [Item [0x41] 1 None 258, Item [0x42, 0x43] 2 (Some 7) ESP_OK]))"
    using echoTask_sends_without_checking_the_handle [OF f] by blast
  then have r: "snd (projr (echoTask (mbuf_init 3)
                    [Item [0x41] 1 None 258, Item [0x42, 0x43] 2 (Some 7) ESP_OK]))
       = [LogStr LOGI ''BLE->UART'' [0x41], UsbTx None [0x41] 1 1000,
          Log LOGW ''BLE->UART'' ''Failed send to USB UART'' [], ReturnItem,
          LogStr LOGI ''BLE->UART'' [0x42, 0x43], UsbTx (Some 7) [0x42, 0x43] 2 1000,
          ReturnItem]"
    by (simp only: turns sum.sel snd_conv)
  show ?thesis using f1 f2 r by blast
qed

text \<open>
  With no device handle the send is still attempted, and its failure is logged: the item
  is not dropped silently.
\<close>

theorem echoTask_absent_handle_counterexample:
  "echoTask (mbuf_init 3) [Item [0x41] 1 None 258]
     = Inr ([0x41, 0, 0, 0],
            [LogStr LOGI ''BLE->UART'' [0x41], UsbTx None [0x41] 1 1000,
             Log LOGW ''BLE->UART'' ''Failed send to USB UART'' [], ReturnItem])"
  by code_simp

text \<open>
  Claim C10. For an item that fits the line buffer, the number of bytes handed to the
  wired blocking send is the length of the C string in the buffer, not \<open>item_size\<close>:
  an item with a NUL byte in it is sent up to its first NUL only, an item without one
  is sent whole.
\<close>

theorem echo_item_sends_strlen_bytes:
  assumes "length item = unat item_size" and "unat item_size < length mbuf"
  shows "\<exists>m line. echo_item mbuf cdc_dev err item item_size =
             Inr (m, [LogStr LOGI ''BLE->UART'' line,
                      UsbTx cdc_dev line (length line) USB_TX_TIMEOUT_MS]
                     @ tx_warning err @ [ReturnItem])
           \<and> c_str m = Inr line
           \<and> (NUL \<in> set item \<longrightarrow>
                line = takeWhile (\<lambda>b. b \<noteq> NUL) item \<and> length line < unat item_size)
           \<and> (NUL \<notin> set item \<longrightarrow> line = item \<and> length line = unat item_size)"
proof -
  have a: "NUL \<in> set item \<longrightarrow>
      until_NUL item = takeWhile (\<lambda>b. b \<noteq> NUL) item \<and> length (until_NUL item) < unat item_size"
    using until_NUL_shorter [of item] assms(1) by (simp add: until_NUL_def)
  have b: "NUL \<notin> set item \<longrightarrow> until_NUL item = item \<and> length (until_NUL item) = unat item_size"
    using assms(1) by (simp add: until_NUL_id)
  show ?thesis
    using echo_item_in_range [OF assms, of cdc_dev err] a b
    by (auto simp: c_str_framed USB_TX_TIMEOUT_MS_def)
qed

theorem echo_item_sends_strlen_bytes_witness:
  "length [0x41, 0, 0x42 :: byte] = unat (3 :: size_t) \<and> unat (3 :: size_t) < length (mbuf_init 7)
   \<and> echo_item (mbuf_init 7) (Some 7) ESP_OK [0x41, 0, 0x42] 3
       = Inr ([0x41, 0, 0, 0, 0, 0, 0, 0],
              [LogStr LOGI ''BLE->UART'' [0x41], UsbTx (Some 7) [0x41] 1 1000, ReturnItem])
   \<and> c_str [0x41, 0, 0, 0, 0, 0, 0, 0] = Inr [0x41]
   \<and> echo_item (mbuf_init 7) (Some 7) ESP_OK [0x41, 0x43, 0x42] 3
       = Inr ([0x41, 0x43, 0x42, 0, 0, 0, 0, 0],
              [LogStr LOGI ''BLE->UART'' [0x41, 0x43, 0x42],
               UsbTx (Some 7) [0x41, 0x43, 0x42] 3 1000, ReturnItem])"
proof -
  have a: "length [0x41, 0, 0x42 :: byte] = unat (3 :: size_t)" by simp
  have b: "unat (3 :: size_t) < length (mbuf_init 7)" by (simp add: mbuf_init_def)
  have first: "echo_item (mbuf_init 7) (Some 7) ESP_OK [0x41, 0, 0x42] 3
       = Inr ([0x41, 0, 0, 0, 0, 0, 0, 0],
              [LogStr LOGI ''BLE->UART'' [0x41], UsbTx (Some 7) [0x41] 1 1000, ReturnItem])"
    by code_simp
  have second: "echo_item (mbuf_init 7) (Some 7) ESP_OK [0x41, 0x43, 0x42] 3
       = Inr ([0x41, 0x43, 0x42, 0, 0, 0, 0, 0],
              [LogStr LOGI ''BLE->UART'' [0x41, 0x43, 0x42],
               UsbTx (Some 7) [0x41, 0x43, 0x42] 3 1000, ReturnItem])"
    by code_simp
  have str: "c_str [0x41, 0, 0, 0, 0, 0, 0, 0] = Inr [0x41]"
    using echo_item_sends_strlen_bytes [OF a b, of "Some 7" ESP_OK]
    by (auto simp: first)
  show ?thesis using a b first second str by simp
qed

text \<open>
  Claim C7, as the code has it. An item that fits is copied into the line buffer and
  terminated at index \<open>item_size\<close>; the bytes after the terminator stay as they were.
  Nothing is trimmed: the bytes handed to the wired send are the C string of the buffer,
  which is the item up to its first NUL, so an item without a NUL is sent whole, a
  trailing CR included.
\<close>

theorem echo_item_copies_and_terminates_only:
  assumes "length item = unat item_size" and "unat item_size < length mbuf"
  shows "\<exists>m. echo_item mbuf cdc_dev err item item_size =
               Inr (m, [LogStr LOGI ''BLE->UART'' (until_NUL item),
                        UsbTx cdc_dev (until_NUL item) (length (until_NUL item))
                          USB_TX_TIMEOUT_MS]
                       @ tx_warning err @ [ReturnItem])
             \<and> length m = length mbuf
             \<and> m ! unat item_size = NUL
             \<and> drop (Suc (unat item_size)) m = drop (Suc (unat item_size)) mbuf
             \<and> c_str m = Inr (until_NUL item)
             \<and> (NUL \<notin> set item \<longrightarrow> until_NUL item = item)"
proof -
  have l: "length (framed mbuf item) = length mbuf"
    using assms by (simp add: length_framed)
  have t: "framed mbuf item ! unat item_size = NUL"
    using framed_terminated [of mbuf item] assms(1) by simp
  have d: "drop (Suc (unat item_size)) (framed mbuf item) = drop (Suc (unat item_size)) mbuf"
    using until_NUL_length_le [of item] assms(1) by (simp add: framed_def)
  show ?thesis
    using echo_item_in_range [OF assms, of cdc_dev err] l t d
    by (simp add: c_str_framed until_NUL_id USB_TX_TIMEOUT_MS_def)
qed

theorem echo_item_copies_and_terminates_only_witness:
  "length [0x4F, 0x4B, 0x0D :: byte] = unat (3 :: size_t)
   \<and> unat (3 :: size_t) < length (mbuf_init 7)
   \<and> NUL \<notin> set [0x4F, 0x4B, 0x0D]
   \<and> snd (projr (echo_item (mbuf_init 7) (Some 7) ESP_OK [0x4F, 0x4B, 0x0D] 3))
       = [LogStr LOGI ''BLE->UART'' [0x4F, 0x4B, 0x0D],
          UsbTx (Some 7) [0x4F, 0x4B, 0x0D] 3 1000, ReturnItem]"
proof -
  have a: "length [0x4F, 0x4B, 0x0D :: byte] = unat (3 :: size_t)" by simp
  have b: "unat (3 :: size_t) < length (mbuf_init 7)" by (simp add: mbuf_init_def)
  have c: "NUL \<notin> set [0x4F, 0x4B, 0x0D]" by (simp add: NUL_def)
  have e: "snd (projr (echo_item (mbuf_init 7) (Some 7) ESP_OK [0x4F, 0x4B, 0x0D] 3))
       = [LogStr LOGI ''BLE->UART'' [0x4F, 0x4B, 0x0D],
          UsbTx (Some 7) [0x4F, 0x4B, 0x0D] 3 1000, ReturnItem]"
    using echo_item_copies_and_terminates_only [OF a b, of "Some 7" ESP_OK] c
    by (auto simp: tx_warning_def USB_TX_TIMEOUT_MS_def)
  show ?thesis using a b c e by simp
qed

text \<open>The item \<^verbatim>\<open>"OK\r\n"\<close> reaches the wired send with its CR and LF.\<close>

theorem echo_item_keeps_CR_LF_counterexample:
  "echo_item (mbuf_init 7) (Some 7) ESP_OK [0x4F, 0x4B, 0x0D, 0x0A] 4
     = Inr ([0x4F, 0x4B, 0x0D, 0x0A, 0, 0, 0, 0],
            [LogStr LOGI ''BLE->UART'' [0x4F, 0x4B, 0x0D, 0x0A],
             UsbTx (Some 7) [0x4F, 0x4B, 0x0D, 0x0A] 4 1000, ReturnItem])"
  by code_simp

subsection \<open>The lifecycle loop\<close>

lemma app_main_turn_open_failed:
  "fst (open_res env) \<noteq> ESP_OK \<Longrightarrow>
   app_main_turn env = (opening_events @ [Log LOGI TAG ''Failed to open device'' []], Some Retry)"
  by (cases "open_res env")
     (auto simp: app_main_turn_def opening_events_def MD9600_USB_DEVICE_VID_def
        MD9600_USB_DEVICE_PID_def)

lemma app_main_turn_starts_with_open:
  "\<exists>rest. fst (app_main_turn env) = opening_events @ rest"
  by (cases "open_res env")
     (auto simp: app_main_turn_def opening_events_def MD9600_USB_DEVICE_VID_def
        MD9600_USB_DEVICE_PID_def ESP_ERROR_CHECK_def Let_def)

lemma app_main_loop_starts_with_open:
  "\<exists>rest. fst (app_main_loop ((env, s) # envs)) = opening_events @ rest"
proof -
  obtain rest where r: "fst (app_main_turn env) = opening_events @ rest"
    using app_main_turn_starts_with_open by blast
  show ?thesis
    using r
    by (cases "app_main_turn env") (auto split: option.splits turn_end.splits)
qed

text \<open>
  Claim C8. After a successful open, when every configuration call returns \<open>ESP_OK\<close>,
  one turn of the loop reads the line coding, sets it to rate 115200, 8 data bits, parity 0
  and 1 in the stop-bit field (\<^verbatim>\<open>bCharFormat\<close>), reads it back and logs what it read,
  sets the control line state with DTR asserted and RTS not, and ends blocked in the take
  of the disconnect signal: connected.
\<close>

theorem app_main_configures_then_waits:
  assumes "open_res env = (ESP_OK, cdc_dev)" and "fst (get1_res env) = ESP_OK"
    and "set_res env = ESP_OK" and "fst (get2_res env) = ESP_OK" and "ctl_res env = ESP_OK"
  shows "app_main_turn env =
           ([Log LOGI TAG ''Opening CDC ACM device 0x%04X:0x%04X...'' [0x1FC9, 0x0094],
             UsbOpen 0x1FC9 0x0094 0,
             TaskDelay 100,
             Log LOGI TAG ''Setting up line coding'' [],
             LineCodingGet cdc_dev,
             LineCodingSet cdc_dev
               \<lparr>dwDTERate = 115200, bCharFormat = 1, bParityType = 0, bDataBits = 8\<rparr>,
             LineCodingGet cdc_dev,
             Log LOGI TAG ''Line Get: Rate: %u, Stop bits: %u, Parity: %u, Databits: %u''
               [uint (dwDTERate (snd (get2_res env))), uint (bCharFormat (snd (get2_res env))),
                uint (bParityType (snd (get2_res env))), uint (bDataBits (snd (get2_res env)))],
             SetControlLineState cdc_dev True False,
             Log LOGI TAG ''Connected CDC ACM device 0x%04X:0x%04X...'' [0x1FC9, 0x0094],
             SemTake],
            Some Connected)
       \<and> app_main_loop ((env, False) # envs) = (fst (app_main_turn env), Some Connected)"
proof -
  have t: "app_main_turn env =
           ([Log LOGI TAG ''Opening CDC ACM device 0x%04X:0x%04X...'' [0x1FC9, 0x0094],
             UsbOpen 0x1FC9 0x0094 0,
             TaskDelay 100,
             Log LOGI TAG ''Setting up line coding'' [],
             LineCodingGet cdc_dev,
             LineCodingSet cdc_dev
               \<lparr>dwDTERate = 115200, bCharFormat = 1, bParityType = 0, bDataBits = 8\<rparr>,
             LineCodingGet cdc_dev,
             Log LOGI TAG ''Line Get: Rate: %u, Stop bits: %u, Parity: %u, Databits: %u''
               [uint (dwDTERate (snd (get2_res env))), uint (bCharFormat (snd (get2_res env))),
                uint (bParityType (snd (get2_res env))), uint (bDataBits (snd (get2_res env)))],
             SetControlLineState cdc_dev True False,
             Log LOGI TAG ''Connected CDC ACM device 0x%04X:0x%04X...'' [0x1FC9, 0x0094],
             SemTake],
            Some Connected)"
    using assms
    by (simp add: app_main_turn_def ESP_ERROR_CHECK_def Let_def MD9600_USB_DEVICE_VID_def
        MD9600_USB_DEVICE_PID_def)
  then show ?thesis by simp
qed

theorem app_main_configures_then_waits_witness:
  "open_res env_device = (ESP_OK, Some 1) \<and> fst (get1_res env_device) = ESP_OK
   \<and> set_res env_device = ESP_OK \<and> fst (get2_res env_device) = ESP_OK
   \<and> ctl_res env_device = ESP_OK
   \<and> app_main_turn env_device =
           ([Log LOGI TAG ''Opening CDC ACM device 0x%04X:0x%04X...'' [0x1FC9, 0x0094],
             UsbOpen 0x1FC9 0x0094 0,
             TaskDelay 100,
             Log LOGI TAG ''Setting up line coding'' [],
             LineCodingGet (Some 1),
             LineCodingSet (Some 1)
               \<lparr>dwDTERate = 115200, bCharFormat = 1, bParityType = 0, bDataBits = 8\<rparr>,
             LineCodingGet (Some 1),
             Log LOGI TAG ''Line Get: Rate: %u, Stop bits: %u, Parity: %u, Databits: %u''
               [115200, 1, 0, 8],
             SetControlLineState (Some 1) True False,
             Log LOGI TAG ''Connected CDC ACM device 0x%04X:0x%04X...'' [0x1FC9, 0x0094],
             SemTake],
            Some Connected)
   \<and> snd (app_main_loop [(env_device, False), (env_device, False)]) = Some Connected"
proof -
  have a: "open_res env_device = (ESP_OK, Some 1)" by (simp add: env_device_def)
  have b: "fst (get1_res env_device) = ESP_OK" by (simp add: env_device_def)
  have c: "set_res env_device = ESP_OK" by (simp add: env_device_def)
  have d: "fst (get2_res env_device) = ESP_OK" by (simp add: env_device_def)
  have e: "ctl_res env_device = ESP_OK" by (simp add: env_device_def)
  have g: "snd (get2_res env_device)
           = \<lparr>dwDTERate = 115200, bCharFormat = 1, bParityType = 0, bDataBits = 8\<rparr>"
    by (simp add: env_device_def)
  note inst = app_main_configures_then_waits [OF a b c d e, of "[(env_device, False)]"]
  show ?thesis
    using a b c d e inst by (simp add: g)
qed

text \<open>
  Claim C9. A failed open is logged and the loop goes on with the next turn, which starts
  with the open again and with no delay before it. A configuration call (either line
  coding get, the line coding set, the control line state) that does not return
  \<open>ESP_OK\<close> aborts the process: the turn ends with the abort, and the loop makes no
  further turn.
\<close>

theorem config_failure_aborts_open_failure_retries:
  "(fst (open_res env) \<noteq> ESP_OK \<longrightarrow>
      app_main_turn env =
        (opening_events @ [Log LOGI TAG ''Failed to open device'' []], Some Retry)
      \<and> (\<exists>rest. app_main_loop ((env, s) # (env', s') # envs) =
            (opening_events @ [Log LOGI TAG ''Failed to open device'' []]
               @ opening_events @ rest,
             snd (app_main_loop ((env', s') # envs)))))
   \<and> (fst (open_res env) = ESP_OK
        \<and> (fst (get1_res env) \<noteq> ESP_OK \<or> set_res env \<noteq> ESP_OK
             \<or> fst (get2_res env) \<noteq> ESP_OK \<or> ctl_res env \<noteq> ESP_OK) \<longrightarrow>
      snd (app_main_turn env) = None
      \<and> last (fst (app_main_turn env)) = ProcessAbort
      \<and> app_main_loop ((env, s) # envs) = (fst (app_main_turn env), None))"
proof (intro conjI impI)
  assume f: "fst (open_res env) \<noteq> ESP_OK"
  then show t: "app_main_turn env =
        (opening_events @ [Log LOGI TAG ''Failed to open device'' []], Some Retry)"
    by (rule app_main_turn_open_failed)
  obtain rest where r: "fst (app_main_loop ((env', s') # envs)) = opening_events @ rest"
    using app_main_loop_starts_with_open by blast
  have "app_main_loop ((env, s) # (env', s') # envs) =
            (opening_events @ [Log LOGI TAG ''Failed to open device'' []]
               @ opening_events @ rest,
             snd (app_main_loop ((env', s') # envs)))"
    using r by (simp add: t del: app_main_loop.simps(2)) (simp add: t)
  then show "\<exists>rest. app_main_loop ((env, s) # (env', s') # envs) =
            (opening_events @ [Log LOGI TAG ''Failed to open device'' []]
               @ opening_events @ rest,
             snd (app_main_loop ((env', s') # envs)))"
    by blast
next
  assume a: "fst (open_res env) = ESP_OK
        \<and> (fst (get1_res env) \<noteq> ESP_OK \<or> set_res env \<noteq> ESP_OK
             \<or> fst (get2_res env) \<noteq> ESP_OK \<or> ctl_res env \<noteq> ESP_OK)"
  then show n: "snd (app_main_turn env) = None"
    by (cases "open_res env") (auto simp: app_main_turn_def ESP_ERROR_CHECK_def Let_def)
  from a show "last (fst (app_main_turn env)) = ProcessAbort"
    by (cases "open_res env") (auto simp: app_main_turn_def ESP_ERROR_CHECK_def Let_def)
  from n show "app_main_loop ((env, s) # envs) = (fst (app_main_turn env), None)"
    by (cases "app_main_turn env") simp
qed

theorem config_failure_aborts_open_failure_retries_witness:
  "fst (open_res env_no_device) \<noteq> ESP_OK
   \<and> app_main_loop [(env_no_device, False), (env_no_device, False)] =
        (opening_events @ [Log LOGI TAG ''Failed to open device'' []]
           @ opening_events @ [Log LOGI TAG ''Failed to open device'' []],
         Some Retry)
   \<and> fst (open_res env_set_refused) = ESP_OK \<and> set_res env_set_refused \<noteq> ESP_OK
   \<and> app_main_loop [(env_set_refused, False), (env_device, False)] =
        (opening_events @
           [TaskDelay 100, Log LOGI TAG ''Setting up line coding'' [], LineCodingGet (Some 1),
            LineCodingSet (Some 1)
              \<lparr>dwDTERate = 115200, bCharFormat = 1, bParityType = 0, bDataBits = 8\<rparr>,
            ProcessAbort],
         None)"
proof -
  have a: "fst (open_res env_no_device) \<noteq> ESP_OK"
    by (simp add: env_no_device_def ESP_OK_def)
  have b: "fst (open_res env_set_refused) = ESP_OK
           \<and> (fst (get1_res env_set_refused) \<noteq> ESP_OK \<or> set_res env_set_refused \<noteq> ESP_OK
                \<or> fst (get2_res env_set_refused) \<noteq> ESP_OK \<or> ctl_res env_set_refused \<noteq> ESP_OK)"
    by (simp add: env_set_refused_def env_device_def ESP_OK_def)
  have turn1: "app_main_turn env_no_device =
        (opening_events @ [Log LOGI TAG ''Failed to open device'' []], Some Retry)"
    using config_failure_aborts_open_failure_retries
            [of env_no_device False env_no_device False "[]"] a
    by blast
  have loop1: "app_main_loop [(env_no_device, False), (env_no_device, False)] =
        (opening_events @ [Log LOGI TAG ''Failed to open device'' []]
           @ opening_events @ [Log LOGI TAG ''Failed to open device'' []],
         Some Retry)"
    by (simp add: turn1)
  have turn2: "fst (app_main_turn env_set_refused) =
        opening_events @
           [TaskDelay 100, Log LOGI TAG ''Setting up line coding'' [], LineCodingGet (Some 1),
            LineCodingSet (Some 1)
              \<lparr>dwDTERate = 115200, bCharFormat = 1, bParityType = 0, bDataBits = 8\<rparr>,
            ProcessAbort]"
    by (simp add: app_main_turn_def env_set_refused_def env_device_def ESP_ERROR_CHECK_def
        ESP_OK_def opening_events_def MD9600_USB_DEVICE_VID_def MD9600_USB_DEVICE_PID_def)
  have loop2: "app_main_loop [(env_set_refused, False), (env_device, False)] =
        (fst (app_main_turn env_set_refused), None)"
    using config_failure_aborts_open_failure_retries
            [of env_set_refused False env_device False "[(env_device, False)]"] b
    by blast
  have c1: "fst (open_res env_set_refused) = ESP_OK" using b by blast
  have c2: "set_res env_set_refused \<noteq> ESP_OK"
    by (simp add: env_set_refused_def ESP_OK_def)
  show ?thesis
    using a loop1 c1 c2 loop2 [unfolded turn2] by blast
qed

text \<open>
  The loop itself never gives the disconnect signal: whatever the sessions, a signal that
  was drained before the loop ran is drained after its events. Only \<^verbatim>\<open>handle_event\<close>
  sets it.
\<close>

lemma app_main_turn_no_give: "SemGive \<notin> set (fst (app_main_turn env))"
  by (cases "open_res env")
     (auto simp: app_main_turn_def ESP_ERROR_CHECK_def Let_def)

lemma app_main_loop_no_give: "SemGive \<notin> set (fst (app_main_loop envs))"
proof (induction envs)
  case Nil
  then show ?case by simp
next
  case (Cons x envs)
  obtain env s where x: "x = (env, s)" by (cases x)
  show ?case
    using Cons app_main_turn_no_give [of env]
    by (cases "app_main_turn env") (auto simp: x split: option.splits turn_end.splits)
qed

lemma no_give_keeps_drained:
  "SemGive \<notin> set evs \<Longrightarrow> \<not> sem w \<Longrightarrow> \<not> sem (foldl apply_event w evs)"
proof (induction evs arbitrary: w)
  case Nil
  then show ?case by simp
next
  case (Cons e evs)
  from Cons.prems have "\<not> sem (apply_event w e)"
    by (cases e) (auto split: if_splits)
  with Cons show ?case by simp
qed

lemma app_main_leaves_signal_drained:
  "\<not> sem w \<Longrightarrow> \<not> sem (foldl apply_event w (fst (app_main_loop envs)))"
  using app_main_loop_no_give no_give_keeps_drained by blast

end
